theory Spec2Isabelle
  imports Main
begin

section \<open>Go error values\<close>

text \<open>
  A Go \<^verbatim>\<open>error\<close> is an interface value: nil, or a dynamic type with a value. The
  middleware takes any error, so next to the shapes the package and its tests build
  there is one for the error types a program declares itself:
  \<^item> \<open>NilError\<close>: the nil interface;
  \<^item> \<open>ErrorString a s\<close>: the result of \<^verbatim>\<open>errors.New(s)\<close>, a pointer; \<open>a\<close> is its address;
  \<^item> \<open>WrapError a s e\<close>: \<^verbatim>\<open>fmt.Errorf("...%w", e)\<close>, a pointer with \<^verbatim>\<open>Unwrap() error\<close>;
  \<^item> \<open>JoinError a es\<close>: \<^verbatim>\<open>errors.Join(es...)\<close>, a pointer with \<^verbatim>\<open>Unwrap() []error\<close>;
  \<^item> \<open>ValidationErrors fs\<close>: \<^verbatim>\<open>validator.ValidationErrors\<close>, a slice of field errors
    (not comparable, with neither an \<^verbatim>\<open>Is\<close> nor an \<^verbatim>\<open>Unwrap\<close> method);
  \<^item> \<open>UserError n v es\<close>: a value of the declared error type number \<open>n\<close>; \<open>v\<close> is
    what \<^verbatim>\<open>==\<close> compares of it, \<open>es\<close> what its \<^verbatim>\<open>Unwrap\<close> method returns: \<open>[]\<close>
    without the method, \<open>[e]\<close> for \<^verbatim>\<open>Unwrap() error\<close>, the slice for
    \<^verbatim>\<open>Unwrap() []error\<close>. The \<^verbatim>\<open>customError\<close> of the test file is such a type.
  A pointer is written as its address together with the value it points to, which never
  changes here; two pointers are equal when both agree.
\<close>

datatype error =
    NilError
  | ErrorString nat string
  | WrapError nat string error
  | JoinError nat "error list"
  | ValidationErrors "string list"
  | UserError nat string "error list"

datatype rtype =
    T_errorString | T_wrapError | T_joinError | T_ValidationErrors | T_user nat

text \<open>
  What \<^verbatim>\<open>errors.Is\<close> asks of a declared error type: whether the type is comparable
  (a struct of strings is, a slice or a map is not), and its \<^verbatim>\<open>Is(error) bool\<close>
  method when it has one, as a function of the receiver and the target. The declarations
  of a program are a table from type numbers.
\<close>

record errtype =
  comparable :: bool
  Is_method :: "(error \<Rightarrow> error \<Rightarrow> bool) option"

type_synonym errtypes = "nat \<Rightarrow> errtype"

text \<open>\<^verbatim>\<open>reflect.TypeOf\<close>: the dynamic type, nil (\<open>None\<close>) for the nil interface.\<close>

fun reflect_TypeOf :: "error \<Rightarrow> rtype option" where
  "reflect_TypeOf NilError = None"
| "reflect_TypeOf (ErrorString a s) = Some T_errorString"
| "reflect_TypeOf (WrapError a s e) = Some T_wrapError"
| "reflect_TypeOf (JoinError a es) = Some T_joinError"
| "reflect_TypeOf (ValidationErrors fs) = Some T_ValidationErrors"
| "reflect_TypeOf (UserError n v es) = Some (T_user n)"

text \<open>
  \<^verbatim>\<open>Type.Comparable()\<close>: pointers are comparable, the slice type
  \<^verbatim>\<open>validator.ValidationErrors\<close> is not, a declared type says so itself.
\<close>

fun Comparable :: "errtypes \<Rightarrow> rtype \<Rightarrow> bool" where
  "Comparable tys T_ValidationErrors = False"
| "Comparable tys (T_user n) = comparable (tys n)"
| "Comparable tys t = True"

text \<open>
  The type assertion \<^verbatim>\<open>err.(interface{ Is(error) bool })\<close> followed by the call
  \<^verbatim>\<open>x.Is(target)\<close>; \<open>None\<close> when the type of \<open>err\<close> has no such method.
\<close>

fun method_Is :: "errtypes \<Rightarrow> error \<Rightarrow> error \<Rightarrow> bool option" where
  "method_Is tys (UserError n v es) target =
     (case Is_method (tys n) of
        None \<Rightarrow> None
      | Some f \<Rightarrow> Some (f (UserError n v es) target))"
| "method_Is tys x target = None"

text \<open>
  \<^verbatim>\<open>errors.Is\<close> of the Go standard library:
  \<^verbatim>\<open>
  func Is(err, target error) bool {
      if err == nil || target == nil { return err == target }
      isComparable := reflectlite.TypeOf(target).Comparable()
      return is(err, target, isComparable) }

  func is(err, target error, targetComparable bool) bool {
      for {
          if targetComparable && err == target { return true }
          if x, ok := err.(interface{ Is(error) bool }); ok && x.Is(target) { return true }
          switch x := err.(type) {
          case interface{ Unwrap() error }:
              err = x.Unwrap(); if err == nil { return false }
          case interface{ Unwrap() []error }:
              for _, err := range x.Unwrap() {
                  if is(err, target, targetComparable) { return true } }
              return false
          default: return false } } }
  \<close>
  For a declared type the three ways of unwrapping are one: the search goes on in each
  error of \<open>es\<close>, and fails when there is none.
\<close>

fun errors_is :: "errtypes \<Rightarrow> error \<Rightarrow> error \<Rightarrow> bool \<Rightarrow> bool" where
  "errors_is tys (WrapError a s e) target targetComparable =
     ((targetComparable \<and> WrapError a s e = target) \<or>
      (if e = NilError then False else errors_is tys e target targetComparable))"
| "errors_is tys (JoinError a es) target targetComparable =
     ((targetComparable \<and> JoinError a es = target) \<or>
      list_ex (\<lambda>err. errors_is tys err target targetComparable) es)"
| "errors_is tys (UserError n v es) target targetComparable =
     ((targetComparable \<and> UserError n v es = target) \<or>
      method_Is tys (UserError n v es) target = Some True \<or>
      list_ex (\<lambda>err. errors_is tys err target targetComparable) es)"
| "errors_is tys err target targetComparable = (targetComparable \<and> err = target)"

definition errors_Is :: "errtypes \<Rightarrow> error \<Rightarrow> error \<Rightarrow> bool" where
  "errors_Is tys err target =
     (if err = NilError \<or> target = NilError then err = target
      else errors_is tys err target
             (case reflect_TypeOf target of Some t \<Rightarrow> Comparable tys t | None \<Rightarrow> False))"

section \<open>The request context\<close>

text \<open>
  What the middleware reads of \<^verbatim>\<open>gin.Context\<close>: the recorded errors
  (\<^verbatim>\<open>context.Errors\<close>, each a \<^verbatim>\<open>gin.Error\<close> with its \<^verbatim>\<open>Err\<close>), and whether a
  response has been written (\<^verbatim>\<open>context.Writer.Written()\<close>); the status and the
  body are what a response function writes.
\<close>

record gin_Error =
  Err :: error

record Context =
  Errors :: "gin_Error list"
  Written :: bool
  status :: nat
  body :: string

text \<open>\<^verbatim>\<open>errorMsgs.Last()\<close>: the last recorded error, nil when there is none.\<close>

fun errorMsgs_Last :: "gin_Error list \<Rightarrow> gin_Error option" where
  "errorMsgs_Last [] = None"
| "errorMsgs_Last (x # xs) = (if xs = [] then Some x else errorMsgs_Last xs)"

text \<open>
  A function called by the middleware either returns, leaving the context changed, or
  panics. Calling a nil function value is the runtime panic \<open>NilFuncCall\<close>.
\<close>

datatype panic = NilFuncCall | Panic string

type_synonym HandlerFunc = "Context \<Rightarrow> panic + Context"
type_synonym ResponseFunc = "Context \<Rightarrow> error \<Rightarrow> panic + Context"

section \<open>Options and the handler\<close>

record ErrorMapping =
  fromErrors :: "error list"
  toResponseFunc :: "ResponseFunc option"

record Options =
  errMap :: "ErrorMapping list"
  defaultResponse :: "HandlerFunc option"

record ErrorHandler =
  errMap :: "ErrorMapping list"
  defaultResponse :: "HandlerFunc option"

definition Map :: "error list \<Rightarrow> ErrorMapping" where
  "Map err = \<lparr>fromErrors = err, toResponseFunc = None\<rparr>"

definition ToResponse :: "ErrorMapping \<Rightarrow> ResponseFunc \<Rightarrow> ErrorMapping" where
  "ToResponse r response = r\<lparr>toResponseFunc := Some response\<rparr>"

datatype config_error = ConfigError string

definition validate :: "Options \<Rightarrow> config_error option" where
  "validate opts =
     (if Options.defaultResponse opts = None
      then Some (ConfigError ''defaultResponse is required'')
      else None)"

definition NewErrorHandler :: "Options \<Rightarrow> config_error + ErrorHandler" where
  "NewErrorHandler opts =
     (case validate opts of
        Some err \<Rightarrow> Inl err
      | None \<Rightarrow> Inr \<lparr>errMap = Options.errMap opts,
                  defaultResponse = Options.defaultResponse opts\<rparr>)"

section \<open>The middleware\<close>

text \<open>
  The condition of the inner loop:
  \<^verbatim>\<open>
  errors.Is(lastErr.Err, errToMap) ||
    (reflect.TypeOf(errToMap) == reflect.TypeOf(validator.ValidationErrors{}) &&
     reflect.TypeOf(lastErr.Err) == reflect.TypeOf(errToMap))
  \<close>
  Here and below \<open>tys\<close> are the error types the program declares.
\<close>

definition matches :: "errtypes \<Rightarrow> error \<Rightarrow> error \<Rightarrow> bool" where
  "matches tys lastErr errToMap =
     (errors_Is tys lastErr errToMap \<or>
      (reflect_TypeOf errToMap = reflect_TypeOf (ValidationErrors []) \<and>
       reflect_TypeOf lastErr = reflect_TypeOf errToMap))"

text \<open>
  Each call of a response function is logged, with the arguments it gets: the log is
  how the theorems below count calls. \<open>MappedCall i c err\<close> is the call of the
  response function of the mapping at index \<open>i\<close>.
\<close>

datatype event = MappedCall nat Context error | DefaultCall Context

text \<open>The inner loop over \<^verbatim>\<open>errorMapping.fromErrors\<close>: is there a marker that matches.\<close>

fun scanMarkers :: "errtypes \<Rightarrow> error \<Rightarrow> error list \<Rightarrow> bool" where
  "scanMarkers tys lastErr [] = False"
| "scanMarkers tys lastErr (errToMap # rest) =
     (if matches tys lastErr errToMap then True else scanMarkers tys lastErr rest)"

text \<open>
  The outer loop over \<^verbatim>\<open>e.errMap\<close>, from index \<open>i\<close>: at the first mapping with a
  matching marker the response function is called and both loops are left
  (\<^verbatim>\<open>break extFor\<close>).
\<close>

fun scanMappings ::
  "errtypes \<Rightarrow> nat \<Rightarrow> ErrorMapping list \<Rightarrow> Context \<Rightarrow> error
     \<Rightarrow> event list \<times> (panic + Context)" where
  "scanMappings tys i [] context lastErr = ([], Inr context)"
| "scanMappings tys i (errorMapping # rest) context lastErr =
     (if scanMarkers tys lastErr (fromErrors errorMapping)
      then (case toResponseFunc errorMapping of
              None \<Rightarrow> ([], Inl NilFuncCall)
            | Some f \<Rightarrow> ([MappedCall i context lastErr], f context lastErr))
      else scanMappings tys (Suc i) rest context lastErr)"

text \<open>
  The function \<^verbatim>\<open>GetMiddleware\<close> returns. \<open>Next\<close> is \<^verbatim>\<open>context.Next()\<close>, the
  rest of the handler chain. The result is the log of calls and the outcome.
\<close>

definition GetMiddleware ::
  "errtypes \<Rightarrow> HandlerFunc \<Rightarrow> ErrorHandler \<Rightarrow> Context \<Rightarrow> event list \<times> (panic + Context)" where
  "GetMiddleware tys Next e context =
     (case Next context of
        Inl p \<Rightarrow> ([], Inl p)
      | Inr c1 \<Rightarrow>
          (case errorMsgs_Last (Errors c1) of
             None \<Rightarrow> ([], Inr c1)
           | Some lastErr \<Rightarrow>
               (case scanMappings tys 0 (ErrorHandler.errMap e) c1 (Err lastErr) of
                  (tr, Inl p) \<Rightarrow> (tr, Inl p)
                | (tr, Inr c2) \<Rightarrow>
                    (if \<not> Written c2
                     then (case ErrorHandler.defaultResponse e of
                             None \<Rightarrow> (tr, Inl NilFuncCall)
                           | Some d \<Rightarrow> (tr @ [DefaultCall c2], d c2))
                     else (tr, Inr c2)))))"

section \<open>Notions used by the statements\<close>

text \<open>
  The wrap chain of an error: the error itself and every error reached from it through
  \<^verbatim>\<open>Unwrap\<close>, in the order \<^verbatim>\<open>errors.Is\<close> visits them. A nil error has no chain.
\<close>

fun chain :: "error \<Rightarrow> error list" where
  "chain NilError = []"
| "chain (WrapError a s e) = WrapError a s e # chain e"
| "chain (JoinError a es) = JoinError a es # concat (map chain es)"
| "chain (UserError n v es) = UserError n v es # concat (map chain es)"
| "chain err = [err]"

text \<open>The outcome of the request once the mapping at index \<open>k\<close> is the one selected:
  its response function is called on the context \<open>c1\<close> and the error \<open>err\<close>, and when
  it returns the guard on \<^verbatim>\<open>Written()\<close> decides on the default response function.\<close>

definition selected ::
  "ErrorHandler \<Rightarrow> nat \<Rightarrow> Context \<Rightarrow> error \<Rightarrow> event list \<times> (panic + Context)" where
  "selected e k c1 err =
     (case toResponseFunc (ErrorHandler.errMap e ! k) of
        None \<Rightarrow> ([], Inl NilFuncCall)
      | Some f \<Rightarrow>
          (case f c1 err of
             Inl p \<Rightarrow> ([MappedCall k c1 err], Inl p)
           | Inr c2 \<Rightarrow>
               if Written c2 then ([MappedCall k c1 err], Inr c2)
               else (case ErrorHandler.defaultResponse e of
                       None \<Rightarrow> ([MappedCall k c1 err], Inl NilFuncCall)
                     | Some d \<Rightarrow> ([MappedCall k c1 err, DefaultCall c2], d c2))))"

fun is_MappedCall :: "event \<Rightarrow> bool" where
  "is_MappedCall (MappedCall i c err) = True"
| "is_MappedCall (DefaultCall c) = False"

fun is_DefaultCall :: "event \<Rightarrow> bool" where
  "is_DefaultCall (MappedCall i c err) = False"
| "is_DefaultCall (DefaultCall c) = True"

section \<open>Fixtures of the test file\<close>

text \<open>
  \<^verbatim>\<open>ctx.JSON(code, obj)\<close> writes a response; \<^verbatim>\<open>c.Error(err)\<close> records an error;
  \<^verbatim>\<open>gin.CreateTestContext\<close> gives a context with nothing recorded and nothing written.
\<close>

definition JSON :: "nat \<Rightarrow> string \<Rightarrow> Context \<Rightarrow> Context" where
  "JSON code obj c = c\<lparr>Written := True, status := code, body := obj\<rparr>"

definition Context_Error :: "error \<Rightarrow> Context \<Rightarrow> Context" where
  "Context_Error err c = c\<lparr>Errors := Errors c @ [\<lparr>Err = err\<rparr>]\<rparr>"

definition testContext :: Context where
  "testContext = \<lparr>Errors = [], Written = False, status = 200, body = []\<rparr>"

definition testErr :: error where
  "testErr = ErrorString 1 ''test error''"

definition unmappedErr :: error where
  "unmappedErr = ErrorString 2 ''unmapped error''"

definition wrappedErr :: error where
  "wrappedErr = JoinError 4 [testErr, ErrorString 3 ''additional context'']"

text \<open>
  \<^verbatim>\<open>errors.As(err, &v)\<close> for a variable \<open>v\<close> of type \<open>targetType\<close>, as a test: does the
  chain of \<open>err\<close> hold a value of that type (no \<^verbatim>\<open>As\<close> method is declared).
\<close>

fun errors_As :: "error \<Rightarrow> rtype \<Rightarrow> bool" where
  "errors_As NilError targetType = False"
| "errors_As (WrapError a s e) targetType =
     (targetType = T_wrapError \<or> errors_As e targetType)"
| "errors_As (JoinError a es) targetType =
     (targetType = T_joinError \<or> list_ex (\<lambda>err. errors_As err targetType) es)"
| "errors_As (UserError n v es) targetType =
     (targetType = T_user n \<or> list_ex (\<lambda>err. errors_As err targetType) es)"
| "errors_As err targetType = (reflect_TypeOf err = Some targetType)"

text \<open>
  The declared types of the test file: \<^verbatim>\<open>customError\<close>, type number 0, an empty
  struct with
  \<^verbatim>\<open>
  func (e customError) Is(target error) bool {
      var customError customError
      ok := errors.As(target, &customError)
      return ok }
  \<close>
  Every other number stands for a comparable type without an \<^verbatim>\<open>Is\<close> method.
\<close>

definition testTypes :: errtypes where
  "testTypes n =
     \<lparr>comparable = True,
      Is_method = (if n = 0 then Some (\<lambda>e target. errors_As target (T_user 0)) else None)\<rparr>"

definition customError :: error where
  "customError = UserError 0 [] []"

text \<open>
  Declarations with one more type, number 1: an empty struct whose \<^verbatim>\<open>Is\<close> method
  accepts every target of type \<^verbatim>\<open>validator.ValidationErrors\<close>
  (\<^verbatim>\<open>_, ok := target.(validator.ValidationErrors); return ok\<close>).
\<close>

definition moreTypes :: errtypes where
  "moreTypes n =
     (if n = 1
      then \<lparr>comparable = True,
            Is_method = Some (\<lambda>e target. reflect_TypeOf target = Some T_ValidationErrors)\<rparr>
      else testTypes n)"

text \<open>A handler that records \<open>err\<close>, and one that records nothing.\<close>

definition recording :: "error \<Rightarrow> HandlerFunc" where
  "recording err = (\<lambda>c. Inr (Context_Error err c))"

definition idle :: HandlerFunc where
  "idle = (\<lambda>c. Inr c)"

text \<open>Response functions that write a JSON response, and one that writes nothing.\<close>

definition respond :: "nat \<Rightarrow> string \<Rightarrow> ResponseFunc" where
  "respond code obj = (\<lambda>c err. Inr (JSON code obj c))"

definition silent :: ResponseFunc where
  "silent = (\<lambda>c err. Inr c)"

definition respondDefault :: HandlerFunc where
  "respondDefault = (\<lambda>c. Inr (JSON 500 ''default'' c))"

section \<open>Lemmas on matching and on the two loops\<close>

lemma errors_is_chain:
  "target \<noteq> NilError \<Longrightarrow>
   errors_is tys err target tc =
     (\<exists>x\<in>set (chain err). (tc \<and> x = target) \<or> method_Is tys x target = Some True)"
  by (induction tys err target tc rule: errors_is.induct)
     (auto simp: list_ex_iff split: option.splits)

lemma scanMarkers_iff: "scanMarkers tys e ms = (\<exists>m\<in>set ms. matches tys e m)"
  by (induction ms) auto

lemma scanMappings_no_match:
  "\<forall>m\<in>set ms. \<not> scanMarkers tys e (fromErrors m) \<Longrightarrow>
   scanMappings tys i ms c e = ([], Inr c)"
  by (induction ms arbitrary: i) auto

lemma scanMappings_first_match:
  "k < length ms \<Longrightarrow> scanMarkers tys e (fromErrors (ms ! k)) \<Longrightarrow>
   \<forall>j<k. \<not> scanMarkers tys e (fromErrors (ms ! j)) \<Longrightarrow>
   scanMappings tys i ms c e =
     (case toResponseFunc (ms ! k) of
        None \<Rightarrow> ([], Inl NilFuncCall)
      | Some f \<Rightarrow> ([MappedCall (i + k) c e], f c e))"
proof (induction ms arbitrary: i k)
  case Nil
  then show ?case by simp
next
  case (Cons m ms)
  show ?case
  proof (cases k)
    case 0
    with Cons.prems show ?thesis by (simp split: option.splits)
  next
    case (Suc k')
    from Cons.prems Suc have nm: "\<not> scanMarkers tys e (fromErrors m)" by auto
    have "scanMappings tys (Suc i) ms c e =
     (case toResponseFunc (ms ! k') of
        None \<Rightarrow> ([], Inl NilFuncCall)
      | Some f \<Rightarrow> ([MappedCall (Suc i + k') c e], f c e))"
      using Cons.prems Suc by (intro Cons.IH) auto
    with nm Suc show ?thesis by (auto split: option.splits)
  qed
qed

lemma first_index_le:
  assumes "P (ms ! k)"
  shows "\<exists>i\<le>k. P (ms ! i) \<and> (\<forall>j<i. \<not> P (ms ! j))"
proof -
  define i where "i = (LEAST n. P (ms ! n))"
  have "P (ms ! i)" unfolding i_def using assms by (rule LeastI)
  moreover have "i \<le> k" unfolding i_def using assms by (rule Least_le)
  moreover have "\<forall>j<i. \<not> P (ms ! j)" unfolding i_def using not_less_Least by blast
  ultimately show ?thesis by blast
qed

lemma first_index_exists:
  assumes "\<exists>m\<in>set ms. P m"
  shows "\<exists>k<length ms. P (ms ! k) \<and> (\<forall>j<k. \<not> P (ms ! j))"
proof -
  from assms obtain n where n: "n < length ms" "P (ms ! n)"
    by (auto simp: in_set_conv_nth)
  from first_index_le [of P ms n, OF n(2)]
  obtain i where i: "i \<le> n" "P (ms ! i)" "\<forall>j<i. \<not> P (ms ! j)" by blast
  from i(1) n(1) have "i < length ms" by simp
  with i(2,3) show ?thesis by blast
qed

lemma GetMiddleware_no_match:
  assumes "Next context = Inr c1" "errorMsgs_Last (Errors c1) = Some lastErr"
    "\<forall>m\<in>set (ErrorHandler.errMap e). \<not> scanMarkers tys (Err lastErr) (fromErrors m)"
  shows "GetMiddleware tys Next e context =
     (if Written c1 then ([], Inr c1)
      else (case ErrorHandler.defaultResponse e of
              None \<Rightarrow> ([], Inl NilFuncCall)
            | Some d \<Rightarrow> ([DefaultCall c1], d c1)))"
  using assms(1,2) scanMappings_no_match [OF assms(3), of 0 c1]
  by (simp add: GetMiddleware_def split: option.splits)

lemma GetMiddleware_first_match:
  assumes "Next context = Inr c1" "errorMsgs_Last (Errors c1) = Some lastErr"
    "k < length (ErrorHandler.errMap e)"
    "scanMarkers tys (Err lastErr) (fromErrors (ErrorHandler.errMap e ! k))"
    "\<forall>j<k. \<not> scanMarkers tys (Err lastErr) (fromErrors (ErrorHandler.errMap e ! j))"
  shows "GetMiddleware tys Next e context = selected e k c1 (Err lastErr)"
proof (cases "toResponseFunc (ErrorHandler.errMap e ! k)")
  case None
  with scanMappings_first_match [OF assms(3,4,5), of 0 c1]
  have "scanMappings tys 0 (ErrorHandler.errMap e) c1 (Err lastErr) = ([], Inl NilFuncCall)"
    by simp
  with assms(1,2) None show ?thesis by (simp add: GetMiddleware_def selected_def)
next
  case (Some f)
  with scanMappings_first_match [OF assms(3,4,5), of 0 c1]
  have "scanMappings tys 0 (ErrorHandler.errMap e) c1 (Err lastErr)
          = ([MappedCall k c1 (Err lastErr)], f c1 (Err lastErr))"
    by simp
  with assms(1,2) Some show ?thesis
    by (simp add: GetMiddleware_def selected_def split: sum.splits option.splits)
qed

lemma GetMiddleware_log_cases:
  assumes "Next context = Inr c1" "errorMsgs_Last (Errors c1) = Some lastErr"
  shows "(\<forall>m\<in>set (ErrorHandler.errMap e). \<not> scanMarkers tys (Err lastErr) (fromErrors m)) \<or>
    (\<exists>k<length (ErrorHandler.errMap e).
        scanMarkers tys (Err lastErr) (fromErrors (ErrorHandler.errMap e ! k)) \<and>
        (\<forall>j<k. \<not> scanMarkers tys (Err lastErr) (fromErrors (ErrorHandler.errMap e ! j))))"
  using first_index_exists
    [of "ErrorHandler.errMap e" "\<lambda>m. scanMarkers tys (Err lastErr) (fromErrors m)"]
  by blast

lemma selected_mapped_calls:
  "filter is_MappedCall (fst (selected e k c1 err)) =
     (if toResponseFunc (ErrorHandler.errMap e ! k) = None then []
      else [MappedCall k c1 err])"
  by (simp add: selected_def split: option.splits sum.splits)

lemma chain_not_nil: "x \<in> set (chain err) \<Longrightarrow> x \<noteq> NilError"
  by (induction err rule: chain.induct) auto

lemma chain_nonempty_not_nil: "x \<in> set (chain err) \<Longrightarrow> err \<noteq> NilError"
  by (cases err) auto

lemma errors_Is_chain:
  assumes "err \<noteq> NilError" "reflect_TypeOf target = Some t"
  shows "errors_Is tys err target =
     (\<exists>x\<in>set (chain err).
        (Comparable tys t \<and> x = target) \<or> method_Is tys x target = Some True)"
proof -
  from assms(2) have "target \<noteq> NilError" by auto
  then show ?thesis
    using assms by (simp add: errors_Is_def errors_is_chain)
qed


lemma matches_ValidationErrors:
  "matches tys lastErr (ValidationErrors fs) =
     (reflect_TypeOf lastErr = Some T_ValidationErrors \<or>
      (\<exists>x\<in>set (chain lastErr). method_Is tys x (ValidationErrors fs) = Some True))"
proof (cases "lastErr = NilError")
  case True
  then show ?thesis by (simp add: matches_def errors_Is_def)
next
  case False
  then show ?thesis
    by (auto simp: matches_def errors_Is_chain [of lastErr _ T_ValidationErrors])
qed

lemma wrapper_not_validation:
  assumes "e \<in> set (chain m)" "m \<notin> set (chain e)"
  shows "reflect_TypeOf m \<noteq> Some T_ValidationErrors \<and> m \<noteq> NilError"
  using assms by (cases m) auto

lemma NewErrorHandler_default:
  "NewErrorHandler opts = Inr e \<Longrightarrow> \<exists>d. ErrorHandler.defaultResponse e = Some d"
  by (auto simp: NewErrorHandler_def validate_def split: if_splits)

lemma panic_origin:
  assumes "\<forall>m\<in>set (ErrorHandler.errMap e). toResponseFunc m \<noteq> None"
    and "ErrorHandler.defaultResponse e = Some d"
    and "GetMiddleware tys Next e context = (tr, Inl p)"
  shows "Next context = Inl p \<or>
         (\<exists>i c err f. MappedCall i c err \<in> set tr \<and> i < length (ErrorHandler.errMap e) \<and>
             toResponseFunc (ErrorHandler.errMap e ! i) = Some f \<and> f c err = Inl p) \<or>
         (\<exists>c. DefaultCall c \<in> set tr \<and> d c = Inl p)"
proof (cases "Next context")
  case (Inl q)
  with assms(3) show ?thesis by (simp add: GetMiddleware_def)
next
  case (Inr c1)
  show ?thesis
  proof (cases "errorMsgs_Last (Errors c1)")
    case None
    with Inr assms(3) show ?thesis by (simp add: GetMiddleware_def)
  next
    case (Some lastErr)
    from GetMiddleware_log_cases [of Next "context" c1 lastErr e tys, OF Inr Some]
    show ?thesis
    proof
      assume "\<forall>m\<in>set (ErrorHandler.errMap e). \<not> scanMarkers tys (Err lastErr) (fromErrors m)"
      from GetMiddleware_no_match [of Next "context" c1 lastErr e tys, OF Inr Some this]
        assms(2,3)
      show ?thesis by (auto split: if_splits)
    next
      assume "\<exists>k<length (ErrorHandler.errMap e).
        scanMarkers tys (Err lastErr) (fromErrors (ErrorHandler.errMap e ! k)) \<and>
        (\<forall>j<k. \<not> scanMarkers tys (Err lastErr) (fromErrors (ErrorHandler.errMap e ! j)))"
      then obtain k where k: "k < length (ErrorHandler.errMap e)"
        "scanMarkers tys (Err lastErr) (fromErrors (ErrorHandler.errMap e ! k))"
        "\<forall>j<k. \<not> scanMarkers tys (Err lastErr) (fromErrors (ErrorHandler.errMap e ! j))"
        by blast
      from assms(1) k(1) obtain f where f: "toResponseFunc (ErrorHandler.errMap e ! k) = Some f"
        by (metis nth_mem not_None_eq)
      note gm = GetMiddleware_first_match [of Next "context" c1 lastErr k e tys, OF Inr Some k]
      show ?thesis
      proof (cases "f c1 (Err lastErr)")
        case (Inl q)
        with gm f k(1) assms(3) show ?thesis by (auto simp: selected_def)
      next
        case c2: (Inr c2)
        with gm f k(1) assms(2,3) show ?thesis
          by (cases "Written c2") (auto simp: selected_def)
      qed
    qed
  qed
qed

lemmas fixture_defs =
  JSON_def Context_Error_def testContext_def testErr_def unmappedErr_def wrappedErr_def
  recording_def idle_def respond_def silent_def respondDefault_def Map_def ToResponse_def
  testTypes_def customError_def moreTypes_def

section \<open>The constructor\<close>

text \<open>
  C7. \<^verbatim>\<open>NewErrorHandler\<close> fails, with the configuration error, exactly when the default
  response function is unset; nothing else is validated, and with a default response
  function set (whatever the mapping list) the handler holds the configured mappings and
  the configured default response function.
\<close>

theorem NewErrorHandler_validates_default_only:
  "(NewErrorHandler opts = Inl (ConfigError ''defaultResponse is required''))
     = (Options.defaultResponse opts = None) \<and>
   (\<exists>err. NewErrorHandler opts = Inl err) = (Options.defaultResponse opts = None) \<and>
   (NewErrorHandler opts = Inr h)
     = (Options.defaultResponse opts \<noteq> None \<and>
        ErrorHandler.errMap h = Options.errMap opts \<and>
        ErrorHandler.defaultResponse h = Options.defaultResponse opts)"
  by (auto simp: NewErrorHandler_def validate_def)

theorem NewErrorHandler_validates_default_only_witness:
  "NewErrorHandler \<lparr>Options.errMap = [], Options.defaultResponse = None\<rparr>
     = Inl (ConfigError ''defaultResponse is required'') \<and>
   NewErrorHandler \<lparr>Options.errMap = [Map [testErr]], Options.defaultResponse = Some respondDefault\<rparr>
     = Inr \<lparr>errMap = [Map [testErr]], defaultResponse = Some respondDefault\<rparr>"
  using NewErrorHandler_validates_default_only
          [of "\<lparr>Options.errMap = [], Options.defaultResponse = None\<rparr>"]
        NewErrorHandler_validates_default_only
          [of "\<lparr>Options.errMap = [Map [testErr]], Options.defaultResponse = Some respondDefault\<rparr>"
              "\<lparr>errMap = [Map [testErr]], defaultResponse = Some respondDefault\<rparr>"]
  by simp

section \<open>Requests without a recorded error\<close>

text \<open>
  C3. When no error is recorded once the rest of the chain has run, the middleware calls
  no response function, neither a mapped one nor the default one, and returns the
  context as the chain left it: nothing is written by the middleware.
\<close>

theorem no_error_no_call:
  "Next context = Inr c1 \<Longrightarrow> Errors c1 = [] \<Longrightarrow>
   GetMiddleware tys Next e context = ([], Inr c1)"
  by (simp add: GetMiddleware_def)

theorem no_error_no_call_witness:
  "idle testContext = Inr testContext \<and> Errors testContext = [] \<and>
   GetMiddleware testTypes idle \<lparr>errMap = [], defaultResponse = Some respondDefault\<rparr>
       testContext
     = ([], Inr testContext) \<and>
   \<not> Written testContext"
  using no_error_no_call [of idle testContext testContext testTypes
          "\<lparr>errMap = [], defaultResponse = Some respondDefault\<rparr>"]
  by (simp add: idle_def testContext_def)

section \<open>The fallback to the default response function\<close>

text \<open>
  C8. When an error is recorded and no marker of any mapping matches it (as with an empty
  mapping list, whatever the error), a handler built by \<^verbatim>\<open>NewErrorHandler\<close> calls the
  default response function exactly once and nothing else; but when a response is
  already written at the fallback check, it calls nothing.
\<close>

theorem no_match_default_once:
  assumes "NewErrorHandler opts = Inr e"
    and "Next context = Inr c1"
    and "errorMsgs_Last (Errors c1) = Some lastErr"
    and "\<forall>m\<in>set (ErrorHandler.errMap e). \<forall>marker\<in>set (fromErrors m).
           \<not> matches tys (Err lastErr) marker"
  shows "\<exists>d. ErrorHandler.defaultResponse e = Some d \<and>
           GetMiddleware tys Next e context =
             (if Written c1 then ([], Inr c1) else ([DefaultCall c1], d c1))"
proof -
  from assms(1) obtain d where d: "ErrorHandler.defaultResponse e = Some d"
    using NewErrorHandler_default by blast
  from assms(4)
  have "\<forall>m\<in>set (ErrorHandler.errMap e). \<not> scanMarkers tys (Err lastErr) (fromErrors m)"
    by (simp add: scanMarkers_iff)
  from GetMiddleware_no_match [of Next "context" c1 lastErr e tys, OF assms(2,3) this] d
  show ?thesis by simp
qed

theorem no_match_default_once_witness:
  "GetMiddleware testTypes (recording unmappedErr)
      \<lparr>errMap = [], defaultResponse = Some respondDefault\<rparr> testContext
    = ([DefaultCall (Context_Error unmappedErr testContext)],
       Inr (JSON 500 ''default'' (Context_Error unmappedErr testContext))) \<and>
   GetMiddleware testTypes (recording unmappedErr)
      \<lparr>errMap = [ToResponse (Map [testErr]) (respond 400 ''mapped'')],
       defaultResponse = Some respondDefault\<rparr> (JSON 404 ''early'' testContext)
    = ([], Inr (Context_Error unmappedErr (JSON 404 ''early'' testContext)))"
proof -
  let ?o1 = "\<lparr>Options.errMap = [], Options.defaultResponse = Some respondDefault\<rparr>"
  let ?h1 = "\<lparr>errMap = [], defaultResponse = Some respondDefault\<rparr>"
  let ?o2 = "\<lparr>Options.errMap = [ToResponse (Map [testErr]) (respond 400 ''mapped'')],
              Options.defaultResponse = Some respondDefault\<rparr>"
  let ?h2 = "\<lparr>errMap = [ToResponse (Map [testErr]) (respond 400 ''mapped'')],
              defaultResponse = Some respondDefault\<rparr>"
  let ?c1 = "Context_Error unmappedErr testContext"
  let ?c2 = "Context_Error unmappedErr (JSON 404 ''early'' testContext)"
  have a1: "NewErrorHandler ?o1 = Inr ?h1"
    by (simp add: NewErrorHandler_def validate_def)
  have a2: "NewErrorHandler ?o2 = Inr ?h2"
    by (simp add: NewErrorHandler_def validate_def)
  have b1: "recording unmappedErr testContext = Inr ?c1"
    by (simp add: recording_def)
  have b2: "recording unmappedErr (JSON 404 ''early'' testContext) = Inr ?c2"
    by (simp add: recording_def)
  have l1: "errorMsgs_Last (Errors ?c1) = Some \<lparr>Err = unmappedErr\<rparr>"
    by (simp add: fixture_defs)
  have l2: "errorMsgs_Last (Errors ?c2) = Some \<lparr>Err = unmappedErr\<rparr>"
    by (simp add: fixture_defs)
  have n1: "\<forall>m\<in>set (ErrorHandler.errMap ?h1). \<forall>marker\<in>set (fromErrors m).
           \<not> matches testTypes (Err \<lparr>Err = unmappedErr\<rparr>) marker"
    by simp
  have n2: "\<forall>m\<in>set (ErrorHandler.errMap ?h2). \<forall>marker\<in>set (fromErrors m).
           \<not> matches testTypes (Err \<lparr>Err = unmappedErr\<rparr>) marker"
    by (simp add: fixture_defs matches_def errors_Is_def)
  have w1: "\<not> Written ?c1" by (simp add: fixture_defs)
  have w2: "Written ?c2" by (simp add: fixture_defs)
  from no_match_default_once
         [of ?o1 ?h1 "recording unmappedErr" testContext _ _ testTypes, OF a1 b1 l1 n1]
       no_match_default_once
         [of ?o2 ?h2 "recording unmappedErr" "JSON 404 ''early'' testContext" _ _ testTypes,
          OF a2 b2 l2 n2]
       w1 w2
  show ?thesis by (simp add: respondDefault_def)
qed

text \<open>
  C2, as the code has it. With no recorded error the middleware returns before the
  fallback check, so the default response function is not called even though nothing is
  written: the test context, with no error and nothing written, is an instance.
\<close>

theorem no_error_default_not_called_counterexample:
  "idle testContext = Inr testContext \<and> Errors testContext = [] \<and> \<not> Written testContext \<and>
   \<not> list_ex is_DefaultCall
       (fst (GetMiddleware testTypes idle
               \<lparr>errMap = [], defaultResponse = Some respondDefault\<rparr> testContext))"
  by (simp add: GetMiddleware_def idle_def testContext_def)

text \<open>
  C2, amended. The default response function is called only in a request where an error
  is recorded once the rest of the chain has run, and only on a context with no response
  written; with no recorded error it is never called.
\<close>

theorem default_call_only_after_error:
  assumes "DefaultCall c \<in> set (fst (GetMiddleware tys Next e context))"
  shows "\<not> Written c \<and> (\<exists>c1. Next context = Inr c1 \<and> Errors c1 \<noteq> [])"
proof (cases "Next context")
  case (Inl p)
  with assms show ?thesis by (simp add: GetMiddleware_def)
next
  case (Inr c1)
  show ?thesis
  proof (cases "errorMsgs_Last (Errors c1)")
    case None
    with Inr assms show ?thesis by (simp add: GetMiddleware_def)
  next
    case (Some lastErr)
    then have ne: "Errors c1 \<noteq> []" by auto
    from GetMiddleware_log_cases [of Next "context" c1 lastErr e tys, OF Inr Some]
    show ?thesis
    proof
      assume "\<forall>m\<in>set (ErrorHandler.errMap e). \<not> scanMarkers tys (Err lastErr) (fromErrors m)"
      from GetMiddleware_no_match [of Next "context" c1 lastErr e tys, OF Inr Some this]
        assms Inr ne
      show ?thesis by (auto split: if_splits option.splits)
    next
      assume "\<exists>k<length (ErrorHandler.errMap e).
        scanMarkers tys (Err lastErr) (fromErrors (ErrorHandler.errMap e ! k)) \<and>
        (\<forall>j<k. \<not> scanMarkers tys (Err lastErr) (fromErrors (ErrorHandler.errMap e ! j)))"
      then obtain k where k: "k < length (ErrorHandler.errMap e)"
        "scanMarkers tys (Err lastErr) (fromErrors (ErrorHandler.errMap e ! k))"
        "\<forall>j<k. \<not> scanMarkers tys (Err lastErr) (fromErrors (ErrorHandler.errMap e ! j))"
        by blast
      from GetMiddleware_first_match [of Next "context" c1 lastErr k e tys, OF Inr Some k]
        assms Inr ne
      show ?thesis by (auto simp: selected_def split: if_splits option.splits sum.splits)
    qed
  qed
qed

theorem default_call_only_after_error_witness:
  "DefaultCall (Context_Error unmappedErr testContext)
     \<in> set (fst (GetMiddleware testTypes (recording unmappedErr)
                   \<lparr>errMap = [], defaultResponse = Some respondDefault\<rparr> testContext)) \<and>
   \<not> Written (Context_Error unmappedErr testContext) \<and>
   recording unmappedErr testContext = Inr (Context_Error unmappedErr testContext) \<and>
   Errors (Context_Error unmappedErr testContext) \<noteq> []"
proof -
  have a: "DefaultCall (Context_Error unmappedErr testContext)
     \<in> set (fst (GetMiddleware testTypes (recording unmappedErr)
                   \<lparr>errMap = [], defaultResponse = Some respondDefault\<rparr> testContext))"
    by (simp add: GetMiddleware_def fixture_defs)
  from default_call_only_after_error [OF a] a show ?thesis
    by (auto simp: recording_def)
qed

section \<open>Calls per request\<close>

text \<open>
  C1, as the code has it. After the loops the middleware calls the default response
  function whenever no response is written, also when a mapped response function has
  just been called: with a mapped response function that writes nothing, both are called
  in the same request.
\<close>

theorem silent_mapping_then_default_counterexample:
  "fst (GetMiddleware testTypes (recording testErr)
          \<lparr>errMap = [ToResponse (Map [testErr]) silent],
           defaultResponse = Some respondDefault\<rparr> testContext)
   = [MappedCall 0 (Context_Error testErr testContext) testErr,
      DefaultCall (Context_Error testErr testContext)]"
  by (simp add: GetMiddleware_def fixture_defs matches_def errors_Is_def)

text \<open>
  C1, amended. With a default response function set, a request calls at most one mapped
  response function and at most once the default one. When a mapped response function
  is called, the default one is called as well exactly when the mapped one returns
  leaving no response written; so a mapped response function that returns with its
  response written excludes the default one.
\<close>

theorem calls_per_request:
  assumes "ErrorHandler.defaultResponse e = Some d"
  shows "length (filter is_MappedCall (fst (GetMiddleware tys Next e context))) \<le> 1 \<and>
         length (filter is_DefaultCall (fst (GetMiddleware tys Next e context))) \<le> 1 \<and>
         (\<forall>i c err. MappedCall i c err \<in> set (fst (GetMiddleware tys Next e context)) \<longrightarrow>
            (\<exists>f. i < length (ErrorHandler.errMap e) \<and>
                 toResponseFunc (ErrorHandler.errMap e ! i) = Some f \<and>
                 (list_ex is_DefaultCall (fst (GetMiddleware tys Next e context))
                    = (\<exists>c'. f c err = Inr c' \<and> \<not> Written c'))))"
proof (cases "Next context")
  case (Inl p)
  then show ?thesis by (simp add: GetMiddleware_def)
next
  case (Inr c1)
  show ?thesis
  proof (cases "errorMsgs_Last (Errors c1)")
    case None
    with Inr show ?thesis by (simp add: GetMiddleware_def)
  next
    case (Some lastErr)
    from GetMiddleware_log_cases [of Next "context" c1 lastErr e tys, OF Inr Some]
    show ?thesis
    proof
      assume "\<forall>m\<in>set (ErrorHandler.errMap e). \<not> scanMarkers tys (Err lastErr) (fromErrors m)"
      from GetMiddleware_no_match [of Next "context" c1 lastErr e tys, OF Inr Some this] assms
      show ?thesis by simp
    next
      assume "\<exists>k<length (ErrorHandler.errMap e).
        scanMarkers tys (Err lastErr) (fromErrors (ErrorHandler.errMap e ! k)) \<and>
        (\<forall>j<k. \<not> scanMarkers tys (Err lastErr) (fromErrors (ErrorHandler.errMap e ! j)))"
      then obtain k where k: "k < length (ErrorHandler.errMap e)"
        "scanMarkers tys (Err lastErr) (fromErrors (ErrorHandler.errMap e ! k))"
        "\<forall>j<k. \<not> scanMarkers tys (Err lastErr) (fromErrors (ErrorHandler.errMap e ! j))"
        by blast
      note gm = GetMiddleware_first_match [of Next "context" c1 lastErr k e tys, OF Inr Some k]
      show ?thesis
      proof (cases "toResponseFunc (ErrorHandler.errMap e ! k)")
        case None
        with gm show ?thesis by (simp add: selected_def)
      next
        case f: (Some f)
        show ?thesis
        proof (cases "f c1 (Err lastErr)")
          case (Inl p)
          with gm f k(1) show ?thesis by (simp add: selected_def)
        next
          case (Inr c2)
          with gm f k(1) assms show ?thesis
            by (cases "Written c2") (simp_all add: selected_def)
        qed
      qed
    qed
  qed
qed

theorem calls_per_request_witness:
  "ErrorHandler.defaultResponse
     \<lparr>errMap = [ToResponse (Map [testErr]) (respond 400 ''mapped'')],
      defaultResponse = Some respondDefault\<rparr> = Some respondDefault \<and>
   MappedCall 0 (Context_Error testErr testContext) testErr
     \<in> set (fst (GetMiddleware testTypes (recording testErr)
          \<lparr>errMap = [ToResponse (Map [testErr]) (respond 400 ''mapped'')],
           defaultResponse = Some respondDefault\<rparr> testContext)) \<and>
   \<not> list_ex is_DefaultCall
       (fst (GetMiddleware testTypes (recording testErr)
          \<lparr>errMap = [ToResponse (Map [testErr]) (respond 400 ''mapped'')],
           defaultResponse = Some respondDefault\<rparr> testContext))"
proof -
  let ?h = "\<lparr>errMap = [ToResponse (Map [testErr]) (respond 400 ''mapped'')],
             defaultResponse = Some respondDefault\<rparr>"
  let ?c = "Context_Error testErr testContext"
  let ?tr = "fst (GetMiddleware testTypes (recording testErr) ?h testContext)"
  have d: "ErrorHandler.defaultResponse ?h = Some respondDefault" by simp
  have mem: "MappedCall 0 ?c testErr \<in> set ?tr"
    by (simp add: GetMiddleware_def fixture_defs matches_def errors_Is_def)
  from calls_per_request [of ?h respondDefault testTypes "recording testErr" testContext, OF d]
    mem
  obtain f where f: "toResponseFunc (ErrorHandler.errMap ?h ! 0) = Some f"
    "list_ex is_DefaultCall ?tr = (\<exists>c'. f ?c testErr = Inr c' \<and> \<not> Written c')"
    by blast
  from f(1) have "f = respond 400 ''mapped''" by (simp add: ToResponse_def)
  with f(2) have "\<not> list_ex is_DefaultCall ?tr"
    by (simp add: respond_def JSON_def)
  with d mem show ?thesis by blast
qed

section \<open>The first matching mapping\<close>

text \<open>
  C4. When the recorded error matches markers of two (or more) mappings, at \<open>k\<close> and at
  a later \<open>j\<close>, with \<open>k\<close> the first one that matches, the request does what the
  response function \<open>f\<close> of mapping \<open>k\<close> does: \<open>f\<close> is called, once, on the context the
  rest of the chain left and on the recorded error itself, and its outcome is the
  outcome of the request, up to the guard on \<^verbatim>\<open>Written()\<close> after it. No other mapped
  response function is called, whatever matches later. (A mapping whose function was
  never attached has none to call.)
\<close>

theorem first_matching_mapping_only:
  assumes "Next context = Inr c1"
    and "errorMsgs_Last (Errors c1) = Some lastErr"
    and "k < j" and "j < length (ErrorHandler.errMap e)"
    and "\<exists>m\<in>set (fromErrors (ErrorHandler.errMap e ! k)). matches tys (Err lastErr) m"
    and "\<exists>m\<in>set (fromErrors (ErrorHandler.errMap e ! j)). matches tys (Err lastErr) m"
    and "\<forall>i<k. \<forall>m\<in>set (fromErrors (ErrorHandler.errMap e ! i)).
           \<not> matches tys (Err lastErr) m"
  shows "GetMiddleware tys Next e context =
     (case toResponseFunc (ErrorHandler.errMap e ! k) of
        None \<Rightarrow> ([], Inl NilFuncCall)
      | Some f \<Rightarrow>
          (case f c1 (Err lastErr) of
             Inl p \<Rightarrow> ([MappedCall k c1 (Err lastErr)], Inl p)
           | Inr c2 \<Rightarrow>
               if Written c2 then ([MappedCall k c1 (Err lastErr)], Inr c2)
               else (case ErrorHandler.defaultResponse e of
                       None \<Rightarrow> ([MappedCall k c1 (Err lastErr)], Inl NilFuncCall)
                     | Some d \<Rightarrow> ([MappedCall k c1 (Err lastErr), DefaultCall c2], d c2)))) \<and>
     filter is_MappedCall (fst (GetMiddleware tys Next e context)) =
       (if toResponseFunc (ErrorHandler.errMap e ! k) = None then []
        else [MappedCall k c1 (Err lastErr)])"
proof -
  have k: "k < length (ErrorHandler.errMap e)"
    "scanMarkers tys (Err lastErr) (fromErrors (ErrorHandler.errMap e ! k))"
    "\<forall>i<k. \<not> scanMarkers tys (Err lastErr) (fromErrors (ErrorHandler.errMap e ! i))"
    using assms by (simp_all add: scanMarkers_iff)
  note gm = GetMiddleware_first_match [of Next "context" c1 lastErr k e tys, OF assms(1,2) k]
  from gm have "filter is_MappedCall (fst (GetMiddleware tys Next e context)) =
       (if toResponseFunc (ErrorHandler.errMap e ! k) = None then []
        else [MappedCall k c1 (Err lastErr)])"
    by (simp only: selected_mapped_calls)
  with gm show ?thesis by (simp only: selected_def simp_thms)
qed

theorem first_matching_mapping_only_witness:
  "recording testErr testContext = Inr (Context_Error testErr testContext) \<and>
   \<not> matches testTypes testErr unmappedErr \<and> matches testTypes testErr testErr \<and>
   GetMiddleware testTypes (recording testErr)
        \<lparr>errMap = [ToResponse (Map [unmappedErr]) (respond 404 ''other''),
                   ToResponse (Map [testErr]) (respond 400 ''first''),
                   ToResponse (Map [testErr]) (respond 409 ''second'')],
         defaultResponse = Some respondDefault\<rparr> testContext
   = ([MappedCall 1 (Context_Error testErr testContext) testErr],
      Inr (JSON 400 ''first'' (Context_Error testErr testContext)))"
proof -
  let ?h = "\<lparr>errMap = [ToResponse (Map [unmappedErr]) (respond 404 ''other''),
                   ToResponse (Map [testErr]) (respond 400 ''first''),
                   ToResponse (Map [testErr]) (respond 409 ''second'')],
         defaultResponse = Some respondDefault\<rparr>"
  let ?c = "Context_Error testErr testContext"
  have a: "recording testErr testContext = Inr ?c" by (simp add: recording_def)
  have b: "errorMsgs_Last (Errors ?c) = Some \<lparr>Err = testErr\<rparr>"
    by (simp add: Context_Error_def testContext_def)
  have m: "matches testTypes testErr testErr"
    by (simp add: matches_def errors_Is_def testErr_def)
  have n: "\<not> matches testTypes testErr unmappedErr"
    by (simp add: matches_def errors_Is_def testErr_def unmappedErr_def)
  have c: "(1::nat) < 2" "2 < length (ErrorHandler.errMap ?h)" by simp_all
  have d: "\<exists>m\<in>set (fromErrors (ErrorHandler.errMap ?h ! 1)).
             matches testTypes (Err \<lparr>Err = testErr\<rparr>) m"
    using m by (simp add: Map_def ToResponse_def)
  have e: "\<exists>m\<in>set (fromErrors (ErrorHandler.errMap ?h ! 2)).
             matches testTypes (Err \<lparr>Err = testErr\<rparr>) m"
    using m by (simp add: Map_def ToResponse_def)
  have f: "\<forall>i<1. \<forall>m\<in>set (fromErrors (ErrorHandler.errMap ?h ! i)).
             \<not> matches testTypes (Err \<lparr>Err = testErr\<rparr>) m"
    using n by (simp add: Map_def ToResponse_def)
  have w: "Written (JSON 400 ''first'' ?c)" by (simp add: JSON_def)
  from first_matching_mapping_only
         [of "recording testErr" testContext ?c "\<lparr>Err = testErr\<rparr>" 1 2 ?h testTypes,
          OF a b c d e f]
       a m n w
  show ?thesis by (simp add: ToResponse_def respond_def)
qed

section \<open>Matching along the wrap chain\<close>




text \<open>
  C6, as the code has it. \<^verbatim>\<open>errors.Is\<close> calls the \<^verbatim>\<open>Is\<close> method of the recorded error
  whatever the target: a recorded error of a declared type whose \<^verbatim>\<open>Is\<close> method accepts
  a \<^verbatim>\<open>validator.ValidationErrors\<close> target matches such a marker without having its
  type, and the mapped response function is called.
\<close>

theorem is_method_accepts_validation_marker_counterexample:
  "reflect_TypeOf (UserError 1 [] []) \<noteq> reflect_TypeOf (ValidationErrors [''Name'']) \<and>
   matches moreTypes (UserError 1 [] []) (ValidationErrors [''Name'']) \<and>
   GetMiddleware moreTypes (recording (UserError 1 [] []))
      \<lparr>errMap = [ToResponse (Map [ValidationErrors [''Name'']]) (respond 400 ''mapped'')],
       defaultResponse = Some respondDefault\<rparr> testContext
   = ([MappedCall 0 (Context_Error (UserError 1 [] []) testContext) (UserError 1 [] [])],
      Inr (JSON 400 ''mapped'' (Context_Error (UserError 1 [] []) testContext)))"
  by (simp add: GetMiddleware_def fixture_defs matches_def errors_Is_def)

text \<open>
  C6, amended. A \<^verbatim>\<open>validator.ValidationErrors\<close> marker matches every recorded error
  of that same dynamic type, whatever the field errors on either side; besides those it
  matches only a recorded error with an \<^verbatim>\<open>Is\<close> method in its wrap chain that accepts
  the marker, the one way \<^verbatim>\<open>errors.Is\<close> accepts a marker of this kind (it never compares
  it). For a marker of any other kind the match is \<^verbatim>\<open>errors.Is\<close> alone: the comparison
  of types plays no part.
\<close>

theorem validation_errors_match_by_type:
  "matches tys lastErr (ValidationErrors fs)
     = (reflect_TypeOf lastErr = reflect_TypeOf (ValidationErrors fs) \<or>
        (\<exists>x\<in>set (chain lastErr). method_Is tys x (ValidationErrors fs) = Some True)) \<and>
   errors_Is tys lastErr (ValidationErrors fs)
     = (\<exists>x\<in>set (chain lastErr). method_Is tys x (ValidationErrors fs) = Some True) \<and>
   (reflect_TypeOf errToMap \<noteq> Some T_ValidationErrors \<longrightarrow>
      matches tys lastErr errToMap = errors_Is tys lastErr errToMap)"
proof -
  have "errors_Is tys lastErr (ValidationErrors fs)
     = (\<exists>x\<in>set (chain lastErr). method_Is tys x (ValidationErrors fs) = Some True)"
  proof (cases "lastErr = NilError")
    case True
    then show ?thesis by (simp add: errors_Is_def)
  next
    case False
    then show ?thesis by (simp add: errors_Is_chain [of lastErr _ T_ValidationErrors])
  qed
  then show ?thesis by (auto simp: matches_def)
qed

theorem validation_errors_match_by_type_witness:
  "matches testTypes (ValidationErrors [''Age'', ''Email'']) (ValidationErrors [''Name'']) \<and>
   \<not> errors_Is testTypes (ValidationErrors [''Name'']) (ValidationErrors [''Name'']) \<and>
   \<not> matches testTypes (JoinError 6 [ValidationErrors [''Name'']]) (ValidationErrors [''Name'']) \<and>
   matches moreTypes (JoinError 8 [UserError 1 [] []]) (ValidationErrors [''Name'']) \<and>
   reflect_TypeOf testErr \<noteq> Some T_ValidationErrors \<and>
   reflect_TypeOf unmappedErr = reflect_TypeOf testErr \<and>
   \<not> matches testTypes unmappedErr testErr"
proof -
  have a: "reflect_TypeOf testErr \<noteq> Some T_ValidationErrors"
    by (simp add: testErr_def)
  have b: "\<not> errors_Is testTypes unmappedErr testErr"
    by (simp add: errors_Is_def testErr_def unmappedErr_def)
  from validation_errors_match_by_type
         [of testTypes "ValidationErrors [''Age'', ''Email'']" "[''Name'']" testErr]
       validation_errors_match_by_type
         [of testTypes "ValidationErrors [''Name'']" "[''Name'']" testErr]
       validation_errors_match_by_type
         [of testTypes "JoinError 6 [ValidationErrors [''Name'']]" "[''Name'']" testErr]
       validation_errors_match_by_type
         [of moreTypes "JoinError 8 [UserError 1 [] []]" "[''Name'']" testErr]
       validation_errors_match_by_type [of testTypes unmappedErr "[]" testErr]
       a b
  show ?thesis by (simp add: testErr_def unmappedErr_def moreTypes_def)
qed

text \<open>
  C10. Matching walks the chain of the recorded error only. When the chain of the marker
  \<open>m\<close> holds \<open>e\<close> and \<open>m\<close> is not in the chain of \<open>e\<close> (so \<open>m\<close> is a wrapped or joined
  error around \<open>e\<close>, never of the validation kind), a recorded \<open>e\<close> does not match \<open>m\<close>
  unless an \<^verbatim>\<open>Is\<close> method in the chain of \<open>e\<close> accepts \<open>m\<close>; the other way round, a
  recorded \<open>m\<close> matches the marker \<open>e\<close> as soon as the type of \<open>e\<close> is comparable (or
  else when an \<^verbatim>\<open>Is\<close> method in the chain of \<open>m\<close> accepts \<open>e\<close>, and only then).
\<close>

theorem match_not_symmetric:
  assumes "e \<in> set (chain m)"
    and "m \<notin> set (chain e)"
    and "\<not> (\<exists>x\<in>set (chain e). method_Is tys x m = Some True)"
  shows "\<not> matches tys e m \<and>
         matches tys m e =
           ((\<exists>t. reflect_TypeOf e = Some t \<and> Comparable tys t) \<or>
            (\<exists>x\<in>set (chain m). method_Is tys x e = Some True))"
proof -
  have ne: "e \<noteq> NilError" "m \<noteq> NilError"
    using assms(1) chain_not_nil chain_nonempty_not_nil by blast+
  from wrapper_not_validation [OF assms(1,2)]
  have t: "reflect_TypeOf m \<noteq> Some T_ValidationErrors" by simp
  from ne obtain tm te where tm: "reflect_TypeOf m = Some tm"
    and te: "reflect_TypeOf e = Some te"
    by (cases m; cases e) auto
  have "\<not> errors_Is tys e m"
    using assms(2,3) by (auto simp: errors_Is_chain [OF ne(1) tm])
  with t have a: "\<not> matches tys e m" by (simp add: matches_def)
  have "errors_Is tys m e = (Comparable tys te \<or>
            (\<exists>x\<in>set (chain m). method_Is tys x e = Some True))"
    using assms(1) by (auto simp: errors_Is_chain [OF ne(2) te])
  with t tm te have b: "matches tys m e =
           ((\<exists>t. reflect_TypeOf e = Some t \<and> Comparable tys t) \<or>
            (\<exists>x\<in>set (chain m). method_Is tys x e = Some True))"
    by (auto simp: matches_def)
  from a b show ?thesis by blast
qed

theorem match_not_symmetric_witness:
  "testErr \<in> set (chain wrappedErr) \<and> wrappedErr \<notin> set (chain testErr) \<and>
   \<not> matches testTypes testErr wrappedErr \<and> matches testTypes wrappedErr testErr"
proof -
  have b: "testErr \<in> set (chain wrappedErr)" by (simp add: wrappedErr_def testErr_def)
  have c: "wrappedErr \<notin> set (chain testErr)" by (simp add: wrappedErr_def testErr_def)
  have d: "\<not> (\<exists>x\<in>set (chain testErr). method_Is testTypes x wrappedErr = Some True)"
    by (simp add: testErr_def)
  have e: "reflect_TypeOf testErr = Some T_errorString \<and> Comparable testTypes T_errorString"
    by (simp add: testErr_def)
  from match_not_symmetric [OF b c d] b c e show ?thesis
    by blast
qed

text \<open>
  The exception for \<^verbatim>\<open>Is\<close> methods is met: the \<^verbatim>\<open>customError\<close> of the test file
  accepts every target that holds a \<^verbatim>\<open>customError\<close>, itself as in the test
  \<^verbatim>\<open>should handle custom error\<close>, or a joined error around one.
\<close>

lemma custom_Is_accepts_wrapper:
  "matches testTypes customError customError \<and>
   customError \<in> set (chain (JoinError 7 [customError, testErr])) \<and>
   JoinError 7 [customError, testErr] \<notin> set (chain customError) \<and>
   matches testTypes customError (JoinError 7 [customError, testErr])"
  by (simp add: matches_def errors_Is_def testErr_def customError_def testTypes_def)

section \<open>Panics of the middleware itself\<close>

text \<open>
  C9, at a mapping built by \<^verbatim>\<open>Map\<close> with no \<^verbatim>\<open>ToResponse\<close>. \<^verbatim>\<open>NewErrorHandler\<close>
  accepts the options, and on a recorded error that matches the marker the middleware
  calls the nil \<^verbatim>\<open>toResponseFunc\<close>: a panic with no response function called. (By
  \<open>panic_origin\<close>, with every response function attached a panic comes from the rest of
  the chain or from a called response function.)
\<close>

theorem nil_response_func_panics:
  "NewErrorHandler \<lparr>Options.errMap = [Map [testErr]],
                    Options.defaultResponse = Some respondDefault\<rparr>
     = Inr \<lparr>errMap = [Map [testErr]], defaultResponse = Some respondDefault\<rparr> \<and>
   GetMiddleware testTypes (recording testErr)
     \<lparr>errMap = [Map [testErr]], defaultResponse = Some respondDefault\<rparr> testContext
     = ([], Inl NilFuncCall)"
  by (simp add: NewErrorHandler_def validate_def GetMiddleware_def fixture_defs
        matches_def errors_Is_def)

end
